theory Spec2Isabelle
  imports Main "HOL-Library.AList" "HOL-Library.Sublist" "HOL-Library.Log_Nat"
begin

section \<open>Data model: the detection result of \<^verbatim>\<open>detect_labels\<close>\<close>

text \<open>
  The two scripts \<^verbatim>\<open>classify.py\<close> and \<^verbatim>\<open>crop.py\<close> read the response of the
  vision service as nested Python dictionaries. Each dictionary becomes a record whose
  fields carry the keys of the response. A key the code reads with \<^verbatim>\<open>.get\<close> is an
  \<open>option\<close> field (\<open>None\<close>: the key is absent); a key the code reads with
  \<^verbatim>\<open>d[key]\<close> is a plain field.

  A Python \<^verbatim>\<open>float\<close> of the response is a finite IEEE double. It is modelled by the
  rational number it denotes: comparison and equality of finite doubles are those of
  their values (\<^verbatim>\<open>-0.0 == 0.0\<close> included). Rounding is written out where the code
  multiplies (section on cropping).
\<close>

type_synonym pyfloat = rat

record bounding_box =
  Left :: pyfloat
  Top :: pyfloat
  Width :: pyfloat
  Height :: pyfloat

record label_instance =
  Confidence :: pyfloat
  BoundingBox :: bounding_box

record label =
  Name :: string
  Instances :: "label_instance list option"

record color =
  PixelPercent :: "pyfloat option"
  SimplifiedColor :: "string option"

record quality =
  Sharpness :: "pyfloat option"

record image_properties =
  Quality :: "quality option"
  DominantColors :: "color list option"

record response =
  ImageProperties :: "image_properties option"
  Labels :: "label list option"

text \<open>
  The exceptions of the Python runtime that the modelled code can raise. The last
  constructor, \<open>InvalidInput\<close>, is the error kind of the specification's taxonomy; it is
  listed so that statements about it can be written, and no function below returns it.
\<close>

datatype py_error =
  ValueError | TypeError | IndexError | KeyError | AttributeError | OverflowError | InvalidInput

section \<open>\<^verbatim>\<open>classify.py\<close>: the sharpness gate\<close>

text \<open>
  \<^verbatim>\<open>avg_sharpness = image_properties.get("Quality", {}).get("Sharpness", 100)\<close>
  \<^verbatim>\<open>return avg_sharpness > threshold\<close>
\<close>

definition avg_sharpness :: "image_properties \<Rightarrow> pyfloat" where
  "avg_sharpness image_properties =
     (case Quality image_properties of
        None \<Rightarrow> 100
      | Some q \<Rightarrow> (case Sharpness q of None \<Rightarrow> 100 | Some s \<Rightarrow> s))"

definition is_sharp :: "image_properties \<Rightarrow> pyfloat \<Rightarrow> bool" where
  "is_sharp image_properties threshold = (avg_sharpness image_properties > threshold)"

section \<open>\<^verbatim>\<open>classify.py\<close>: the dominant colour\<close>

text \<open>
  A Python \<^verbatim>\<open>dict\<close> keeps its keys in insertion order, and storing under a key that is
  present replaces the value in place. That is \<open>AList.update\<close> on an association list.
  The dict comprehension of \<^verbatim>\<open>get_dominant_color_name\<close> stores one pair per colour, in
  the order of the list.
\<close>

definition color_key :: "color \<Rightarrow> pyfloat" where
  "color_key c = (case PixelPercent c of None \<Rightarrow> 0 | Some p \<Rightarrow> p)"

definition dominant_colors_dict :: "color list \<Rightarrow> (pyfloat \<times> string option) list" where
  "dominant_colors_dict cs =
     fold (\<lambda>c d. AList.update (color_key c) (SimplifiedColor c) d) cs []"

text \<open>Python's \<^verbatim>\<open>max\<close> of an iterable: \<^verbatim>\<open>ValueError\<close> when it is empty.\<close>

fun py_max :: "pyfloat list \<Rightarrow> py_error + pyfloat" where
  "py_max [] = Inl ValueError"
| "py_max (k # ks) = Inr (fold max ks k)"

text \<open>
  \<^verbatim>\<open>return dominant_colors[max(dominant_colors.keys())]\<close>. Iterating over an absent
  \<^verbatim>\<open>DominantColors\<close> (\<^verbatim>\<open>None\<close>) is a \<^verbatim>\<open>TypeError\<close>. The returned name is the
  stored \<^verbatim>\<open>SimplifiedColor\<close>, which is \<^verbatim>\<open>None\<close> when the colour has no such key.
  A subscript with a key that is not in the dictionary would be a \<^verbatim>\<open>KeyError\<close>; it
  cannot happen here, as the key comes from the dictionary itself.
\<close>

definition get_dominant_color_name :: "image_properties \<Rightarrow> py_error + string option" where
  "get_dominant_color_name image_properties =
     (case DominantColors image_properties of
        None \<Rightarrow> Inl TypeError
      | Some cs \<Rightarrow>
          (let dominant_colors = dominant_colors_dict cs in
           case py_max (map fst dominant_colors) of
             Inl e \<Rightarrow> Inl e
           | Inr m \<Rightarrow>
               (case map_of dominant_colors m of
                  None \<Rightarrow> Inl KeyError
                | Some name \<Rightarrow> Inr name)))"

section \<open>\<^verbatim>\<open>classify.py\<close>: the category of a label\<close>

text \<open>
  \<^verbatim>\<open>line.startswith(label)\<close>: the argument is a prefix of the string.
  \<^verbatim>\<open>line.split(CSV_SEPARATOR)\<close> cuts the line at every separator and always yields at
  least one field.
\<close>

definition startswith :: "string \<Rightarrow> string \<Rightarrow> bool" where
  "startswith s p = prefix p s"

definition endswith :: "string \<Rightarrow> string \<Rightarrow> bool" where
  "endswith s p = suffix p s"

definition CSV_SEPARATOR :: char where
  "CSV_SEPARATOR = CHR '',''"

fun split_sep :: "char \<Rightarrow> string \<Rightarrow> string list" where
  "split_sep sep [] = [[]]"
| "split_sep sep (c # cs) =
     (if c = sep then [] # split_sep sep cs
      else (case split_sep sep cs of
              [] \<Rightarrow> [[c]]
            | piece # pieces \<Rightarrow> (c # piece) # pieces))"

text \<open>
  \<^verbatim>\<open>get_label_category\<close> opens the mapping file on every call and walks through its
  lines. The file itself is not part of the sources: its lines, as the iteration over
  the file yields them (each with its line terminator, but possibly the last), are the
  first argument. \<^verbatim>\<open>line.split(CSV_SEPARATOR)[1]\<close> is an \<^verbatim>\<open>IndexError\<close> on a line
  without separator; \<^verbatim>\<open>return None\<close> after the loop is \<open>Inr None\<close>.
\<close>

fun get_label_category :: "string list \<Rightarrow> string \<Rightarrow> py_error + string option" where
  "get_label_category [] label = Inr None"
| "get_label_category (line # file) label =
     (if startswith line label then
        (case split_sep CSV_SEPARATOR line of
           _ # category # _ \<Rightarrow> Inr (Some category)
         | _ \<Rightarrow> Inl IndexError)
      else get_label_category file label)"



section \<open>\<^verbatim>\<open>classify.py\<close>: sorting one image\<close>

text \<open>
  \<^verbatim>\<open>os.path.join\<close> (POSIX): a component that starts with a slash replaces what came
  before it; otherwise it is appended, after a slash unless the path so far is empty or
  ends with one. Joining three components is joining twice.
  \<^verbatim>\<open>os.path.basename\<close> is what follows the last slash.
\<close>

definition path_join :: "string \<Rightarrow> string \<Rightarrow> string" where
  "path_join a b =
     (if startswith b ''/'' then b
      else if a = [] \<or> endswith a ''/'' then a @ b
      else a @ ''/'' @ b)"

definition basename :: "string \<Rightarrow> string" where
  "basename p = rev (takeWhile (\<lambda>c. c \<noteq> CHR ''/'') (rev p))"

text \<open>
  The effects on the file system are recorded as a list of actions, in the order in
  which they happen. \<^verbatim>\<open>make_category\<close> creates the directory and copies the image
  into it. Failures of the file system itself are not modelled.
\<close>

datatype action = MakeDirs string | Copy string string

definition make_category :: "string \<Rightarrow> string \<Rightarrow> string \<Rightarrow> action list" where
  "make_category image_path image_name dir =
     [MakeDirs dir, Copy image_path (path_join dir image_name)]"

text \<open>
  How the work on one image ends: it ran through, the image was skipped as blurry
  (\<^verbatim>\<open>continue\<close>), or an exception was raised, which ends the whole run.
\<close>

datatype outcome = Done | Skipped | Failed py_error

text \<open>\<^verbatim>\<open>not label.get("Instances")\<close>: the key is absent or the list is empty.\<close>

definition whole_image :: "label \<Rightarrow> bool" where
  "whole_image l = (case Instances l of None \<Rightarrow> True | Some instances \<Rightarrow> instances = [])"

text \<open>
  The loop over the labels. \<^verbatim>\<open>os.path.join\<close> raises \<^verbatim>\<open>TypeError\<close> when
  \<^verbatim>\<open>get_label_category\<close> returned \<^verbatim>\<open>None\<close>. What was copied before an exception
  stays copied.
\<close>

fun label_loop ::
  "string \<Rightarrow> string \<Rightarrow> string \<Rightarrow> string list \<Rightarrow> label list \<Rightarrow> action list \<times> outcome" where
  "label_loop image_path image_name labels_dir categories [] = ([], Done)"
| "label_loop image_path image_name labels_dir categories (l # labels) =
     (if whole_image l then
        (case get_label_category categories (Name l) of
           Inl e \<Rightarrow> ([], Failed e)
         | Inr None \<Rightarrow> ([], Failed TypeError)
         | Inr (Some label_category) \<Rightarrow>
             (let path = path_join (path_join labels_dir label_category) (Name l);
                  rest = label_loop image_path image_name labels_dir categories labels
              in (make_category image_path image_name path @ fst rest, snd rest)))
      else label_loop image_path image_name labels_dir categories labels)"

text \<open>
  The body of the loop over the images in \<^verbatim>\<open>__main__\<close>, for one image and the
  response of the service for it. \<^verbatim>\<open>properties.get\<close> on an absent
  \<^verbatim>\<open>ImageProperties\<close> is an \<^verbatim>\<open>AttributeError\<close>; joining a path with the colour name
  \<^verbatim>\<open>None\<close>, or iterating over absent \<^verbatim>\<open>Labels\<close>, is a \<^verbatim>\<open>TypeError\<close>.
\<close>

definition classify_image ::
  "string \<Rightarrow> string list \<Rightarrow> pyfloat \<Rightarrow> string \<Rightarrow> response \<Rightarrow> action list \<times> outcome" where
  "classify_image OUTPUT_DIR categories min_sharpness image_path resp =
     (case ImageProperties resp of
        None \<Rightarrow> ([], Failed AttributeError)
      | Some properties \<Rightarrow>
          if \<not> is_sharp properties min_sharpness then ([], Skipped)
          else
            (case get_dominant_color_name properties of
               Inl e \<Rightarrow> ([], Failed e)
             | Inr None \<Rightarrow> ([], Failed TypeError)
             | Inr (Some dominant_color) \<Rightarrow>
                 (let labels_dir = path_join OUTPUT_DIR ''labels'';
                      colors_dir = path_join OUTPUT_DIR ''colors'';
                      image_name = basename image_path;
                      colors = make_category image_path image_name
                                 (path_join colors_dir dominant_color)
                  in case Labels resp of
                       None \<Rightarrow> (colors, Failed TypeError)
                     | Some labels \<Rightarrow>
                         (let rest = label_loop image_path image_name labels_dir
                                       categories labels
                          in (colors @ fst rest, snd rest)))))"

section \<open>\<^verbatim>\<open>crop.py\<close>: the bounding boxes of the instances\<close>

text \<open>
  The key of an instance is the f-string \<^verbatim>\<open>f"{name}-{i}"\<close>: the name of the label, a
  dash, and the index in decimal digits.
\<close>

definition digit_char :: "nat \<Rightarrow> char" where
  "digit_char d = ''0123456789'' ! d"

fun str_nat :: "nat \<Rightarrow> string" where
  "str_nat n = (if n < 10 then [digit_char n] else str_nat (n div 10) @ [digit_char (n mod 10)])"

declare str_nat.simps [simp del]

definition instance_key :: "string \<Rightarrow> nat \<Rightarrow> string" where
  "instance_key name i = name @ ''-'' @ str_nat i"

text \<open>
  The inner loop, \<^verbatim>\<open>for i, instance in enumerate(...)\<close>, with the counter \<open>i\<close> and the
  dictionary \<^verbatim>\<open>result\<close> passed along; \<^verbatim>\<open>result[key] = box\<close> is \<open>AList.update\<close>.
\<close>

fun instance_loop ::
  "string \<Rightarrow> pyfloat \<Rightarrow> nat \<Rightarrow> label_instance list \<Rightarrow> (string \<times> bounding_box) list
     \<Rightarrow> (string \<times> bounding_box) list" where
  "instance_loop name min_confidence i [] result = result"
| "instance_loop name min_confidence i (inst # instances) result =
     instance_loop name min_confidence (Suc i) instances
       (if Confidence inst \<ge> min_confidence
        then AList.update (instance_key name i) (BoundingBox inst) result
        else result)"

text \<open>\<^verbatim>\<open>label.get("Instances", [])\<close>: the empty list when the key is absent.\<close>

definition instances_or_empty :: "label \<Rightarrow> label_instance list" where
  "instances_or_empty l = (case Instances l of None \<Rightarrow> [] | Some instances \<Rightarrow> instances)"

definition extract_bounding_boxes ::
  "label list \<Rightarrow> pyfloat \<Rightarrow> (string \<times> bounding_box) list" where
  "extract_bounding_boxes labels min_confidence =
     fold (\<lambda>l result. instance_loop (Name l) min_confidence 0 (instances_or_empty l) result)
       labels []"

text \<open>
  For the proofs: the pairs that the loops store, in the order in which they store them.
  \<open>emitted\<close> lists those of one label, \<open>all_emitted\<close> those of all labels.
\<close>

definition emitted ::
  "string \<Rightarrow> pyfloat \<Rightarrow> nat \<Rightarrow> label_instance list \<Rightarrow> (string \<times> bounding_box) list" where
  "emitted name mc i0 insts =
     map (\<lambda>(i, inst). (instance_key name i, BoundingBox inst))
       (filter (\<lambda>(i, inst). Confidence inst \<ge> mc) (enumerate i0 insts))"

definition all_emitted :: "label list \<Rightarrow> pyfloat \<Rightarrow> (string \<times> bounding_box) list" where
  "all_emitted labels mc = concat (map (\<lambda>l. emitted (Name l) mc 0 (instances_or_empty l)) labels)"

section \<open>Python floats: multiplication and conversion to \<^verbatim>\<open>int\<close>\<close>

text \<open>
  \<^verbatim>\<open>make_cropped_images\<close> multiplies a float of the response by the width or height of
  the image, a Python \<^verbatim>\<open>int\<close>, and converts the product with \<^verbatim>\<open>int\<close>. The product is
  an IEEE 754 double: the exact product, rounded to the nearest double, ties to the even
  significand. \<open>round_double\<close> is that rounding, on the rational values: a double has a
  significand of 53 bits, so the unit in the last place of a value between \<open>2\<^sup>l\<close> and
  \<open>2\<^sup>l\<^sup>+\<^sup>1\<close> is \<open>2\<^sup>l\<^sup>-\<^sup>5\<^sup>2\<close>, and never less than \<open>2\<^sup>-\<^sup>1\<^sup>0\<^sup>7\<^sup>4\<close> (subnormal numbers).
\<close>

definition round_half_even :: "rat \<Rightarrow> int" where
  "round_half_even q =
     (let f = \<lfloor>q\<rfloor>; r = q - of_int f
      in if r < 1 / 2 then f
         else if 1 / 2 < r then f + 1
         else if even f then f else f + 1)"

text \<open>
  The integer \<open>l\<close> with \<open>2\<^sup>l \<le> q < 2\<^sup>l\<^sup>+\<^sup>1\<close>, for a positive \<open>q\<close> (lemmas
  \<open>floor_log2_lower\<close> and \<open>floor_log2_upper\<close>).
\<close>

definition floor_log2 :: "rat \<Rightarrow> int" where
  "floor_log2 q = (if 1 \<le> q then bitlen \<lfloor>q\<rfloor> - 1 else - bitlen (\<lceil>1 / q\<rceil> - 1))"

definition ulp_exponent :: "rat \<Rightarrow> int" where
  "ulp_exponent q = max (floor_log2 \<bar>q\<bar> - 52) (- 1074)"

definition round_double :: "rat \<Rightarrow> rat" where
  "round_double q =
     (if q = 0 then 0
      else sgn q * of_int (round_half_even (\<bar>q\<bar> / 2 powi ulp_exponent q)) * 2 powi ulp_exponent q)"

text \<open>
  The largest finite double. A value whose rounding lies beyond it is an infinity in
  floating point arithmetic.
\<close>

definition max_double :: rat where
  "max_double = (2 ^ 53 - 1) * 2 ^ 971"

definition overflows :: "rat \<Rightarrow> bool" where
  "overflows q = (max_double < \<bar>round_double q\<bar>)"

text \<open>
  In \<^verbatim>\<open>x * n\<close> with a float \<open>x\<close> and an int \<open>n\<close>, Python first converts \<open>n\<close> to a float,
  with \<^verbatim>\<open>OverflowError\<close> when it is too large, and then multiplies; the product can be
  an infinity (\<open>None\<close> here). \<^verbatim>\<open>int\<close> of a finite float cuts the fraction off, towards
  zero, and \<^verbatim>\<open>int\<close> of an infinity is an \<^verbatim>\<open>OverflowError\<close>.
\<close>

definition float_of_int :: "int \<Rightarrow> py_error + pyfloat" where
  "float_of_int n =
     (if overflows (of_int n) then Inl OverflowError else Inr (round_double (of_int n)))"

definition float_mul :: "pyfloat \<Rightarrow> pyfloat \<Rightarrow> pyfloat option" where
  "float_mul x y = (if overflows (x * y) then None else Some (round_double (x * y)))"

definition int_of_float :: "pyfloat \<Rightarrow> int" where
  "int_of_float x = (if 0 \<le> x then \<lfloor>x\<rfloor> else \<lceil>x\<rceil>)"

text \<open>\<^verbatim>\<open>int(x * n)\<close>.\<close>

definition int_float_times :: "pyfloat \<Rightarrow> int \<Rightarrow> py_error + int" where
  "int_float_times x n =
     (case float_of_int n of
        Inl e \<Rightarrow> Inl e
      | Inr y \<Rightarrow>
          (case float_mul x y of
             None \<Rightarrow> Inl OverflowError
           | Some p \<Rightarrow> Inr (int_of_float p)))"

section \<open>\<^verbatim>\<open>crop.py\<close>: the rectangle of a cropped image\<close>

text \<open>
  The body of the loop of \<^verbatim>\<open>make_cropped_images\<close> for one bounding box, lines 59 to 62:
  the rectangle \<^verbatim>\<open>(left, top, right, bottom)\<close> that is handed to \<^verbatim>\<open>image.crop\<close>, for
  an image of the given width and height, in the order in which Python evaluates it.
  What the loop does with the rectangle afterwards (\<^verbatim>\<open>image.crop\<close> and
  \<^verbatim>\<open>cropped.save\<close> of the imaging library, which can raise, for instance on an empty
  crop or on a file extension it does not know) is not part of this model.
\<close>

definition pixel_rect :: "int \<Rightarrow> int \<Rightarrow> bounding_box \<Rightarrow> py_error + (int \<times> int \<times> int \<times> int)" where
  "pixel_rect width height bbox =
     (case int_float_times (Left bbox) width of
        Inl e \<Rightarrow> Inl e
      | Inr left_px \<Rightarrow>
     (case int_float_times (Top bbox) height of
        Inl e \<Rightarrow> Inl e
      | Inr top_px \<Rightarrow>
     (case int_float_times (Width bbox) width of
        Inl e \<Rightarrow> Inl e
      | Inr width_px \<Rightarrow>
     (case int_float_times (Height bbox) height of
        Inl e \<Rightarrow> Inl e
      | Inr height_px \<Rightarrow>
          Inr (left_px, top_px, left_px + width_px, top_px + height_px)))))"

text \<open>
  For the statement of the claim on the rectangles. A box is fractional when its four
  fields lie between 0 and 1. \<open>floor_rect\<close> is the rectangle in the words of the
  specification, with \<open>floor\<close> for the conversion; each product is the product of floats.
\<close>

definition fractional :: "bounding_box \<Rightarrow> bool" where
  "fractional bbox =
     (0 \<le> Left bbox \<and> Left bbox \<le> 1 \<and> 0 \<le> Top bbox \<and> Top bbox \<le> 1
      \<and> 0 \<le> Width bbox \<and> Width bbox \<le> 1 \<and> 0 \<le> Height bbox \<and> Height bbox \<le> 1)"

definition floor_rect :: "int \<Rightarrow> int \<Rightarrow> bounding_box \<Rightarrow> int \<times> int \<times> int \<times> int" where
  "floor_rect width height bbox =
     (let left_px = \<lfloor>round_double (Left bbox * of_int width)\<rfloor>;
          top_px = \<lfloor>round_double (Top bbox * of_int height)\<rfloor>
      in (left_px, top_px,
          left_px + \<lfloor>round_double (Width bbox * of_int width)\<rfloor>,
          top_px + \<lfloor>round_double (Height bbox * of_int height)\<rfloor>))"

section \<open>Properties of the dominant colour\<close>

lemma find_append:
  "List.find P (xs @ ys) = (case List.find P xs of None \<Rightarrow> List.find P ys | Some x \<Rightarrow> Some x)"
  by (induction xs) auto

lemma map_of_fold_update:
  "map_of (fold (\<lambda>c d. AList.update (kf c) (vf c) d) cs d0) k =
     (case List.find (\<lambda>c. kf c = k) (rev cs) of
        Some c \<Rightarrow> Some (vf c)
      | None \<Rightarrow> map_of d0 k)"
proof (induction cs arbitrary: d0)
  case Nil
  then show ?case by simp
next
  case (Cons c cs)
  show ?case
    by (simp add: Cons.IH update_conv' find_append split: option.splits)
qed

lemma keys_fold_update:
  "fst ` set (fold (\<lambda>c d. AList.update (kf c) (vf c) d) cs d0) = kf ` set cs \<union> fst ` set d0"
  by (induction cs arbitrary: d0) (auto simp: dom_update)

lemma fold_max_ge: "(m::pyfloat) \<le> fold max ks m"
proof (induction ks arbitrary: m)
  case Nil
  then show ?case by simp
next
  case (Cons k ks)
  have "m \<le> max k m" by simp
  also have "\<dots> \<le> fold max ks (max k m)" by (rule Cons.IH)
  finally show ?case by simp
qed

lemma fold_max_upper: "k \<in> set ks \<Longrightarrow> (k::pyfloat) \<le> fold max ks m"
proof (induction ks arbitrary: m)
  case Nil
  then show ?case by simp
next
  case (Cons a ks)
  show ?case
  proof (cases "k = a")
    case True
    have "a \<le> max a m" by simp
    also have "\<dots> \<le> fold max ks (max a m)" by (rule fold_max_ge)
    finally show ?thesis using True by simp
  next
    case False
    with Cons.prems have "k \<in> set ks" by simp
    then show ?thesis using Cons.IH by simp
  qed
qed

lemma fold_max_mem: "fold max ks (m::pyfloat) \<in> insert m (set ks)"
proof (induction ks arbitrary: m)
  case Nil
  then show ?case by simp
next
  case (Cons a ks)
  have "fold max ks (max a m) \<in> insert (max a m) (set ks)" by (rule Cons.IH)
  moreover have "max a m = a \<or> max a m = m" by (auto simp: max_def)
  ultimately show ?case by auto
qed

lemma py_max_greatest:
  assumes "m \<in> set ks" and "\<forall>k \<in> set ks. k \<le> m"
  shows "py_max ks = Inr m"
proof (cases ks)
  case Nil
  with assms show ?thesis by simp
next
  case (Cons a as)
  let ?r = "fold max as a"
  have "?r \<in> set ks" using fold_max_mem [of as a] Cons by simp
  then have "?r \<le> m" using assms(2) by blast
  moreover have "m \<le> ?r"
  proof (cases "m = a")
    case True
    then show ?thesis by (simp add: fold_max_ge)
  next
    case False
    with assms(1) Cons have "m \<in> set as" by simp
    then show ?thesis by (rule fold_max_upper)
  qed
  ultimately show ?thesis using Cons by simp
qed

text \<open>
  The general fact behind the claims on the dominant colour: when the colour \<open>c\<close> carries
  the greatest key and no colour after it in the list carries the same key, the name
  returned is the one stored in \<open>c\<close>.
\<close>

lemma dominant_last_max:
  assumes cs: "DominantColors p = Some (xs @ c # ys)"
    and xs: "\<forall>x \<in> set xs. color_key x \<le> color_key c"
    and ys: "\<forall>y \<in> set ys. color_key y < color_key c"
  shows "get_dominant_color_name p = Inr (SimplifiedColor c)"
proof -
  let ?cs = "xs @ c # ys"
  let ?d = "dominant_colors_dict ?cs"
  have keys: "set (map fst ?d) = color_key ` set ?cs"
    unfolding dominant_colors_dict_def using keys_fold_update [of color_key SimplifiedColor ?cs "[]"]
    by simp
  have "color_key c \<in> set (map fst ?d)"
    unfolding keys by simp
  moreover have "\<forall>k \<in> set (map fst ?d). k \<le> color_key c"
    unfolding keys using xs ys by (auto simp: less_imp_le)
  ultimately have mx: "py_max (map fst ?d) = Inr (color_key c)"
    by (rule py_max_greatest)
  have "List.find (\<lambda>x. color_key x = color_key c) (rev ys) = None"
    using ys by (auto simp: find_None_iff)
  then have found: "List.find (\<lambda>x. color_key x = color_key c) (rev ?cs) = Some c"
    by (simp add: find_append)
  have "map_of ?d (color_key c) =
      (case List.find (\<lambda>x. color_key x = color_key c) (rev ?cs) of
         Some x \<Rightarrow> Some (SimplifiedColor x)
       | None \<Rightarrow> map_of [] (color_key c))"
    unfolding dominant_colors_dict_def by (rule map_of_fold_update)
  then have "map_of ?d (color_key c) = Some (SimplifiedColor c)"
    by (simp only: found option.case)
  with mx cs show ?thesis
    by (simp add: get_dominant_color_name_def)
qed

text \<open>
  Claim C7. For a non-empty list of colour observations whose \<^verbatim>\<open>PixelPercent\<close> values are
  pairwise distinct, \<^verbatim>\<open>get_dominant_color_name\<close> returns the \<^verbatim>\<open>SimplifiedColor\<close> of the
  observation with the greatest \<^verbatim>\<open>PixelPercent\<close>. The observations (30, Red) and
  (70, Blue) give Blue (the witness below).
\<close>

theorem dominant_color_is_maximum:
  assumes "DominantColors p = Some cs"
    and "distinct (map color_key cs)"
    and "c \<in> set cs"
    and "\<forall>x \<in> set cs. color_key x \<le> color_key c"
  shows "get_dominant_color_name p = Inr (SimplifiedColor c)"
proof -
  from \<open>c \<in> set cs\<close> obtain xs ys where split: "cs = xs @ c # ys"
    by (auto simp: in_set_conv_decomp)
  have "\<forall>x \<in> set xs. color_key x \<le> color_key c"
    using assms(4) split by simp
  moreover have "\<forall>y \<in> set ys. color_key y < color_key c"
  proof
    fix y assume y: "y \<in> set ys"
    have "color_key c \<notin> color_key ` set ys"
      using assms(2) split by simp
    with y have "color_key y \<noteq> color_key c"
      by (metis imageI)
    moreover have "color_key y \<le> color_key c"
      using assms(4) split y by simp
    ultimately show "color_key y < color_key c" by simp
  qed
  ultimately show ?thesis
    using assms(1) split by (simp add: dominant_last_max)
qed

theorem dominant_color_is_maximum_witness:
  "get_dominant_color_name
     \<lparr>Quality = None,
      DominantColors = Some [\<lparr>PixelPercent = Some 30, SimplifiedColor = Some ''Red''\<rparr>,
                             \<lparr>PixelPercent = Some 70, SimplifiedColor = Some ''Blue''\<rparr>]\<rparr>
   = Inr (Some ''Blue'')"
  using dominant_color_is_maximum
    [of "\<lparr>Quality = None,
          DominantColors = Some [\<lparr>PixelPercent = Some 30, SimplifiedColor = Some ''Red''\<rparr>,
                                 \<lparr>PixelPercent = Some 70, SimplifiedColor = Some ''Blue''\<rparr>]\<rparr>"
        "[\<lparr>PixelPercent = Some 30, SimplifiedColor = Some ''Red''\<rparr>,
          \<lparr>PixelPercent = Some 70, SimplifiedColor = Some ''Blue''\<rparr>]"
        "\<lparr>PixelPercent = Some 70, SimplifiedColor = Some ''Blue''\<rparr>"]
  by (simp add: color_key_def)

text \<open>
  Claim C10. In \<^verbatim>\<open>get_dominant_color_name\<close> an observation stored later under the same
  \<^verbatim>\<open>PixelPercent\<close> replaces the earlier one: the dictionary holds, under each key, the
  name of the last observation of the list with that key. Hence, when the greatest
  \<^verbatim>\<open>PixelPercent\<close> occurs more than once, the name returned is that of the last
  observation, in the order of the list, that carries it.
\<close>

theorem dominant_color_ties_last:
  "map_of (dominant_colors_dict cs) k =
     map_option SimplifiedColor (List.find (\<lambda>x. color_key x = k) (rev cs))
   \<and> (DominantColors p = Some (xs @ c # ys)
        \<longrightarrow> (\<forall>x \<in> set xs. color_key x \<le> color_key c)
        \<longrightarrow> (\<forall>y \<in> set ys. color_key y < color_key c)
        \<longrightarrow> get_dominant_color_name p = Inr (SimplifiedColor c))"
proof -
  have "map_of (dominant_colors_dict cs) k =
      (case List.find (\<lambda>x. color_key x = k) (rev cs) of
         Some x \<Rightarrow> Some (SimplifiedColor x)
       | None \<Rightarrow> map_of [] k)"
    unfolding dominant_colors_dict_def by (rule map_of_fold_update)
  then have "map_of (dominant_colors_dict cs) k =
      map_option SimplifiedColor (List.find (\<lambda>x. color_key x = k) (rev cs))"
    by (simp split: option.splits)
  then show ?thesis
    by (simp add: dominant_last_max)
qed

theorem dominant_color_ties_last_witness:
  "get_dominant_color_name
     \<lparr>Quality = None,
      DominantColors = Some [\<lparr>PixelPercent = Some 50, SimplifiedColor = Some ''A''\<rparr>,
                             \<lparr>PixelPercent = Some 20, SimplifiedColor = Some ''C''\<rparr>,
                             \<lparr>PixelPercent = Some 50, SimplifiedColor = Some ''B''\<rparr>,
                             \<lparr>PixelPercent = Some 10, SimplifiedColor = Some ''D''\<rparr>]\<rparr>
   = Inr (Some ''B'')"
  using dominant_color_ties_last
    [of "[]" 0
        "\<lparr>Quality = None,
          DominantColors = Some [\<lparr>PixelPercent = Some 50, SimplifiedColor = Some ''A''\<rparr>,
                                 \<lparr>PixelPercent = Some 20, SimplifiedColor = Some ''C''\<rparr>,
                                 \<lparr>PixelPercent = Some 50, SimplifiedColor = Some ''B''\<rparr>,
                                 \<lparr>PixelPercent = Some 10, SimplifiedColor = Some ''D''\<rparr>]\<rparr>"
        "[\<lparr>PixelPercent = Some 50, SimplifiedColor = Some ''A''\<rparr>,
          \<lparr>PixelPercent = Some 20, SimplifiedColor = Some ''C''\<rparr>]"
        "\<lparr>PixelPercent = Some 50, SimplifiedColor = Some ''B''\<rparr>"
        "[\<lparr>PixelPercent = Some 10, SimplifiedColor = Some ''D''\<rparr>]"]
  by (simp add: color_key_def)

text \<open>
  Claim C8, as the specification states it: on an empty observation list the selector
  fails with the error \<open>InvalidInput\<close>. The code does not: it fails with the
  \<^verbatim>\<open>ValueError\<close> that \<^verbatim>\<open>max\<close> raises on an empty sequence.
\<close>

theorem dominant_color_empty_counterexample:
  "get_dominant_color_name \<lparr>Quality = None, DominantColors = Some []\<rparr> \<noteq> Inl InvalidInput"
  by (simp add: get_dominant_color_name_def dominant_colors_dict_def)

text \<open>
  Claim C8, amended. When the observation list is empty, \<^verbatim>\<open>get_dominant_color_name\<close>
  fails with \<^verbatim>\<open>ValueError\<close>, whatever the other properties of the image are.
\<close>

theorem dominant_color_empty_ValueError:
  "get_dominant_color_name (p\<lparr>DominantColors := Some []\<rparr>) = Inl ValueError"
  by (simp add: get_dominant_color_name_def dominant_colors_dict_def)

section \<open>Properties of the sharpness gate\<close>

text \<open>
  Claim C5. With a sharpness score \<open>s\<close> in the response, \<^verbatim>\<open>is_sharp\<close> is true exactly
  when \<open>s\<close> is strictly greater than the threshold. Without a score (no \<^verbatim>\<open>Quality\<close>, or
  a \<^verbatim>\<open>Quality\<close> without \<^verbatim>\<open>Sharpness\<close>) the score 100 stands in, so the image passes
  exactly when the threshold is below 100: at the threshold 100 an image without a score
  is rejected.
\<close>

theorem is_sharp_threshold:
  "is_sharp (p\<lparr>Quality := Some \<lparr>Sharpness = Some s\<rparr>\<rparr>) t = (s > t)
   \<and> is_sharp (p\<lparr>Quality := Some \<lparr>Sharpness = None\<rparr>\<rparr>) t = (t < 100)
   \<and> is_sharp (p\<lparr>Quality := None\<rparr>) t = (t < 100)
   \<and> \<not> is_sharp \<lparr>Quality = None, DominantColors = None\<rparr> 100"
  by (simp add: is_sharp_def avg_sharpness_def)

section \<open>Properties of the category resolver\<close>








section \<open>Properties of sorting one image\<close>

lemma endswith_rev: "endswith s p = prefix (rev p) (rev s)"
  by (simp add: endswith_def suffix_to_prefix)

lemmas eval_defs = classify_image_def is_sharp_def avg_sharpness_def get_dominant_color_name_def
  dominant_colors_dict_def color_key_def path_join_def startswith_def endswith_rev basename_def
  make_category_def whole_image_def CSV_SEPARATOR_def Let_def

lemma label_loop_done:
  assumes "\<forall>l \<in> set labels. whole_image l \<longrightarrow>
             get_label_category categories (Name l) = Inr (Some (cat l))"
  shows "label_loop image_path image_name labels_dir categories labels =
     (concat (map (\<lambda>l. make_category image_path image_name
                          (path_join (path_join labels_dir (cat l)) (Name l)))
                  (filter whole_image labels)), Done)"
  using assms by (induction labels) (auto simp: Let_def)

text \<open>
  The shape of the destination of a label: under an output directory that is not empty
  and does not end with a slash, and for a category and a label name that are plain path
  segments, it is \<^verbatim>\<open>OUTPUT_DIR/labels/category/name\<close>.
\<close>

lemma labels_path_shape:
  assumes "out \<noteq> []" and "last out \<noteq> CHR ''/''"
    and "c \<noteq> []" and "hd c \<noteq> CHR ''/''" and "last c \<noteq> CHR ''/''"
    and "n \<noteq> []" and "hd n \<noteq> CHR ''/''"
  shows "path_join (path_join (path_join out ''labels'') c) n = out @ ''/labels/'' @ c @ ''/'' @ n"
proof -
  have e1: "\<not> endswith out ''/''"
    using assms(1,2) by (cases out rule: rev_cases) (auto simp: endswith_def suffix_def)
  have s2: "\<not> startswith c ''/''" and s3: "\<not> startswith n ''/''"
    using assms(3,4,6,7) by (cases c; cases n; simp add: startswith_def)+
  have j1: "path_join out ''labels'' = out @ ''/labels''"
    using assms(1) e1 by (simp add: path_join_def startswith_def)
  have e2: "\<not> endswith (out @ ''/labels'') ''/''"
    by (simp add: endswith_rev)
  have j2: "path_join (out @ ''/labels'') c = out @ ''/labels/'' @ c"
    using s2 e2 by (simp add: path_join_def)
  have e3: "\<not> endswith (out @ ''/labels/'' @ c) ''/''"
    using assms(3,5) by (cases c rule: rev_cases) (auto simp: endswith_rev)
  have "path_join (out @ ''/labels/'' @ c) n = out @ ''/labels/'' @ c @ ''/'' @ n"
    using s3 e3 by (simp add: path_join_def)
  with j1 j2 show ?thesis by simp
qed

text \<open>
  Claim C9. When the sharpness gate rejects the image, the work on it ends as skipped
  and nothing has been done: no directory is created and no file is copied, neither under
  \<^verbatim>\<open>colors\<close> nor under \<^verbatim>\<open>labels\<close>.
\<close>

theorem classify_image_blurry_skipped:
  assumes "ImageProperties resp = Some properties"
    and "\<not> is_sharp properties min_sharpness"
  shows "classify_image OUTPUT_DIR categories min_sharpness image_path resp = ([], Skipped)"
  using assms by (simp add: classify_image_def)

theorem classify_image_blurry_skipped_witness:
  "classify_image ''out'' [''Sky,Nature''] 60 ''imgs/a.jpg''
     \<lparr>ImageProperties = Some \<lparr>Quality = Some \<lparr>Sharpness = Some 59\<rparr>,
                               DominantColors = Some [\<lparr>PixelPercent = Some 30, SimplifiedColor = Some ''Red''\<rparr>]\<rparr>,
      Labels = Some [\<lparr>Name = ''Sky'', Instances = Some []\<rparr>]\<rparr>
   = ([], Skipped)"
  using classify_image_blurry_skipped
    [of "\<lparr>ImageProperties = Some \<lparr>Quality = Some \<lparr>Sharpness = Some 59\<rparr>,
                               DominantColors = Some [\<lparr>PixelPercent = Some 30, SimplifiedColor = Some ''Red''\<rparr>]\<rparr>,
      Labels = Some [\<lparr>Name = ''Sky'', Instances = Some []\<rparr>]\<rparr>"
       "\<lparr>Quality = Some \<lparr>Sharpness = Some 59\<rparr>,
                               DominantColors = Some [\<lparr>PixelPercent = Some 30, SimplifiedColor = Some ''Red''\<rparr>]\<rparr>"
       60 "''out''" "[''Sky,Nature'']" "''imgs/a.jpg''"]
  by (simp add: is_sharp_def avg_sharpness_def)

text \<open>
  Claim C2, as the specification states it for every detection result: a label with an
  empty instance list always contributes one destination under \<^verbatim>\<open>labels\<close>. It does not
  when the image is rejected by the sharpness gate: the label Sky below applies to the
  whole image, its name is in the mapping file, and nothing is created for it.
\<close>

theorem classify_image_labels_counterexample:
  "whole_image \<lparr>Name = ''Sky'', Instances = Some []\<rparr>
   \<and> get_label_category [''Sky,Nature''] ''Sky'' = Inr (Some ''Nature'')
   \<and> fst (classify_image ''out'' [''Sky,Nature''] 60 ''imgs/a.jpg''
        \<lparr>ImageProperties = Some \<lparr>Quality = Some \<lparr>Sharpness = Some 10\<rparr>,
                                  DominantColors = Some [\<lparr>PixelPercent = Some 30, SimplifiedColor = Some ''Red''\<rparr>]\<rparr>,
         Labels = Some [\<lparr>Name = ''Sky'', Instances = Some []\<rparr>]\<rparr>) = []"
  by (simp add: eval_defs)

text \<open>
  Claim C2, amended. When the image passes the sharpness gate, its dominant colour has a
  name and every label that applies to the whole image (instance list empty or absent)
  has a category in the mapping file, the work on the image runs through, and what it
  does is: one directory and one copy for the colour, then, in the order of the labels,
  one directory \<^verbatim>\<open>labels/category/name\<close> and one copy for each label that applies to
  the whole image, and nothing for a label with one or more instances.
\<close>

theorem classify_image_whole_image_labels:
  assumes "ImageProperties resp = Some properties"
    and "is_sharp properties min_sharpness"
    and "get_dominant_color_name properties = Inr (Some dominant_color)"
    and "Labels resp = Some labels"
    and "\<forall>l \<in> set labels. whole_image l \<longrightarrow>
           get_label_category categories (Name l) = Inr (Some (cat l))"
  shows "classify_image OUTPUT_DIR categories min_sharpness image_path resp =
     (make_category image_path (basename image_path)
        (path_join (path_join OUTPUT_DIR ''colors'') dominant_color)
      @ concat (map (\<lambda>l. make_category image_path (basename image_path)
                            (path_join (path_join (path_join OUTPUT_DIR ''labels'') (cat l)) (Name l)))
                    (filter whole_image labels)),
      Done)"
  using assms(1-4) label_loop_done [OF assms(5)]
  by (simp add: classify_image_def Let_def)

theorem classify_image_whole_image_labels_witness:
  "classify_image ''out'' [''Sky,Nature''] 60 ''imgs/a.jpg''
     \<lparr>ImageProperties = Some \<lparr>Quality = Some \<lparr>Sharpness = Some 80\<rparr>,
                               DominantColors = Some [\<lparr>PixelPercent = Some 30, SimplifiedColor = Some ''Red''\<rparr>]\<rparr>,
      Labels = Some [\<lparr>Name = ''Sky'', Instances = Some []\<rparr>,
                     \<lparr>Name = ''Person'',
                      Instances = Some [\<lparr>Confidence = 99,
                                         BoundingBox = \<lparr>Left = 0, Top = 0, Width = 1, Height = 1\<rparr>\<rparr>]\<rparr>]\<rparr>
   = ([MakeDirs ''out/colors/Red'', Copy ''imgs/a.jpg'' ''out/colors/Red/a.jpg'',
       MakeDirs ''out/labels/Nature/Sky'', Copy ''imgs/a.jpg'' ''out/labels/Nature/Sky/a.jpg''],
      Done)"
  using classify_image_whole_image_labels
    [of "\<lparr>ImageProperties = Some \<lparr>Quality = Some \<lparr>Sharpness = Some 80\<rparr>,
                               DominantColors = Some [\<lparr>PixelPercent = Some 30, SimplifiedColor = Some ''Red''\<rparr>]\<rparr>,
      Labels = Some [\<lparr>Name = ''Sky'', Instances = Some []\<rparr>,
                     \<lparr>Name = ''Person'',
                      Instances = Some [\<lparr>Confidence = 99,
                                         BoundingBox = \<lparr>Left = 0, Top = 0, Width = 1, Height = 1\<rparr>\<rparr>]\<rparr>]\<rparr>"
        "\<lparr>Quality = Some \<lparr>Sharpness = Some 80\<rparr>,
                               DominantColors = Some [\<lparr>PixelPercent = Some 30, SimplifiedColor = Some ''Red''\<rparr>]\<rparr>"
        60 "''Red''"
        "[\<lparr>Name = ''Sky'', Instances = Some []\<rparr>,
                     \<lparr>Name = ''Person'',
                      Instances = Some [\<lparr>Confidence = 99,
                                         BoundingBox = \<lparr>Left = 0, Top = 0, Width = 1, Height = 1\<rparr>\<rparr>]\<rparr>]"
        "[''Sky,Nature'']" "\<lambda>l. ''Nature''" "''out''" "''imgs/a.jpg''"]
  by (simp add: is_sharp_def avg_sharpness_def get_dominant_color_name_def
      dominant_colors_dict_def color_key_def path_join_def startswith_def endswith_rev basename_def
      make_category_def whole_image_def CSV_SEPARATOR_def)

text \<open>
  Claim C6. A label that applies to the whole image and has no line in the mapping file
  should end under \<^verbatim>\<open>labels/uncategorized\<close>. In the code, \<^verbatim>\<open>get_label_category\<close>
  returns \<^verbatim>\<open>None\<close> for it and \<^verbatim>\<open>os.path.join\<close> raises \<^verbatim>\<open>TypeError\<close>: the image has
  been copied under its colour, and the run ends there, with no destination for the
  label. The label Tree below is such a label.
\<close>

theorem classify_image_unmapped_label_fails:
  "classify_image ''out'' [''Sky,Nature''] 60 ''imgs/a.jpg''
     \<lparr>ImageProperties = Some \<lparr>Quality = Some \<lparr>Sharpness = Some 80\<rparr>,
                               DominantColors = Some [\<lparr>PixelPercent = Some 30, SimplifiedColor = Some ''Red''\<rparr>]\<rparr>,
      Labels = Some [\<lparr>Name = ''Tree'', Instances = Some []\<rparr>]\<rparr>
   = ([MakeDirs ''out/colors/Red'', Copy ''imgs/a.jpg'' ''out/colors/Red/a.jpg''],
      Failed TypeError)"
  by (simp add: eval_defs)

section \<open>Properties of the extraction of bounding boxes\<close>

lemma str_nat_small: "n < 10 \<Longrightarrow> str_nat n = [digit_char n]"
  by (subst str_nat.simps) simp

lemma str_nat_large: "\<not> n < 10 \<Longrightarrow> str_nat n = str_nat (n div 10) @ [digit_char (n mod 10)]"
  by (subst str_nat.simps) simp

lemma instance_loop_fold:
  "instance_loop name mc i insts result =
     fold (\<lambda>e d. AList.update (fst e) (snd e) d) (emitted name mc i insts) result"
  by (induction insts arbitrary: i result) (auto simp: emitted_def)

lemma extract_fold:
  "fold (\<lambda>l result. instance_loop (Name l) mc 0 (instances_or_empty l) result) labels d =
     fold (\<lambda>e d. AList.update (fst e) (snd e) d) (all_emitted labels mc) d"
  by (induction labels arbitrary: d) (auto simp: all_emitted_def instance_loop_fold)

lemma extract_lookup:
  "map_of (extract_bounding_boxes labels mc) k =
     map_option snd (List.find (\<lambda>e. fst e = k) (rev (all_emitted labels mc)))"
  unfolding extract_bounding_boxes_def extract_fold
  by (simp add: map_of_fold_update split: option.splits)

lemma digit_char_inj: "a < 10 \<Longrightarrow> b < 10 \<Longrightarrow> digit_char a = digit_char b \<Longrightarrow> a = b"
  unfolding digit_char_def
  by (subst (asm) nth_eq_iff_index_eq) auto

lemma str_nat_nonempty: "str_nat n \<noteq> []"
  by (cases "n < 10") (simp_all add: str_nat_small str_nat_large)

lemma str_nat_length_small: "n < 10 \<Longrightarrow> length (str_nat n) = 1"
  using str_nat_small [of n] by simp

lemma str_nat_length_large: "\<not> n < 10 \<Longrightarrow> length (str_nat n) \<ge> 2"
  using str_nat_large [of n] str_nat_nonempty [of "n div 10"]
  by (cases "str_nat (n div 10)") simp_all

lemma str_nat_inj: "str_nat n = str_nat m \<Longrightarrow> n = m"
proof (induction n arbitrary: m rule: str_nat.induct)
  case (1 n)
  show ?case
  proof (cases "n < 10")
    case n: True
    show ?thesis
    proof (cases "m < 10")
      case True
      have "[digit_char n] = [digit_char m]"
        using "1.prems" str_nat_small [OF n] str_nat_small [OF True] by simp
      then show ?thesis using n True by (simp add: digit_char_inj)
    next
      case False
      then show ?thesis
        using "1.prems" str_nat_length_small [OF n] str_nat_length_large [OF False] by simp
    qed
  next
    case n: False
    show ?thesis
    proof (cases "m < 10")
      case True
      then show ?thesis
        using "1.prems" str_nat_length_small [OF True] str_nat_length_large [OF n] by simp
    next
      case False
      have "str_nat (n div 10) @ [digit_char (n mod 10)] = str_nat (m div 10) @ [digit_char (m mod 10)]"
        using "1.prems" str_nat_large [OF n] str_nat_large [OF False] by simp
      then have a: "str_nat (n div 10) = str_nat (m div 10)"
        and b: "digit_char (n mod 10) = digit_char (m mod 10)" by simp_all
      from a have "n div 10 = m div 10" using "1.IH" n by simp
      moreover from b have "n mod 10 = m mod 10" by (simp add: digit_char_inj)
      ultimately show ?thesis by (metis div_mult_mod_eq)
    qed
  qed
qed

lemma digit_char_no_dash: "d < 10 \<Longrightarrow> digit_char d \<noteq> CHR ''-''"
proof -
  assume "d < 10"
  then have "digit_char d \<in> set ''0123456789''"
    unfolding digit_char_def by (intro nth_mem) simp
  then show ?thesis by auto
qed

lemma str_nat_no_dash: "CHR ''-'' \<notin> set (str_nat n)"
proof (induction n rule: str_nat.induct)
  case (1 n)
  show ?case
  proof (cases "n < 10")
    case True
    then show ?thesis using digit_char_no_dash [of n] by (simp add: str_nat_small)
  next
    case False
    then have "str_nat n = str_nat (n div 10) @ [digit_char (n mod 10)]"
      by (rule str_nat_large)
    moreover have "digit_char (n mod 10) \<noteq> CHR ''-''" by (simp add: digit_char_no_dash)
    ultimately show ?thesis using "1.IH" False by auto
  qed
qed

lemma append_sep_eq:
  "x \<notin> set xs \<Longrightarrow> x \<notin> set xs' \<Longrightarrow> xs @ x # ys = xs' @ x # ys' \<Longrightarrow> xs = xs' \<and> ys = ys'"
proof (induction xs arbitrary: xs')
  case Nil
  then show ?case by (cases xs') auto
next
  case (Cons a xs)
  then show ?case by (cases xs') auto
qed

lemma instance_key_inj:
  assumes "instance_key n i = instance_key n' i'"
  shows "n = n' \<and> i = i'"
proof -
  have "rev (n @ ''-'' @ str_nat i) = rev (n' @ ''-'' @ str_nat i')"
    using assms by (simp only: instance_key_def)
  then have "rev (str_nat i) @ CHR ''-'' # rev n = rev (str_nat i') @ CHR ''-'' # rev n'"
    by simp
  then have "rev (str_nat i) = rev (str_nat i') \<and> rev n = rev n'"
    by (rule append_sep_eq [rotated 2]) (simp_all add: str_nat_no_dash)
  then show ?thesis by (simp add: str_nat_inj)
qed


lemma find_fst_map_of: "map_option snd (List.find (\<lambda>e. fst e = k) xs) = map_of xs k"
  by (induction xs) auto

lemma extract_map_of:
  "map_of (extract_bounding_boxes labels mc) = map_of (rev (all_emitted labels mc))"
  by (rule ext) (simp add: extract_lookup find_fst_map_of)

lemma set_emitted:
  "set (emitted name mc i0 insts) =
     {(instance_key name (i0 + j), BoundingBox (insts ! j)) | j.
        j < length insts \<and> Confidence (insts ! j) \<ge> mc}"
proof (induction insts arbitrary: i0)
  case Nil
  then show ?case by (simp add: emitted_def)
next
  case (Cons a insts)
  have step: "emitted name mc i0 (a # insts) =
      (if Confidence a \<ge> mc then [(instance_key name i0, BoundingBox a)] else [])
      @ emitted name mc (Suc i0) insts"
    by (simp add: emitted_def)
  have "{(instance_key name (i0 + j), BoundingBox ((a # insts) ! j)) | j.
          j < length (a # insts) \<and> Confidence ((a # insts) ! j) \<ge> mc}
      = (if Confidence a \<ge> mc then {(instance_key name i0, BoundingBox a)} else {})
        \<union> {(instance_key name (Suc i0 + j), BoundingBox (insts ! j)) | j.
            j < length insts \<and> Confidence (insts ! j) \<ge> mc}"
    (is "?L = ?R")
  proof (rule set_eqI)
    fix e
    show "e \<in> ?L \<longleftrightarrow> e \<in> ?R"
    proof
      assume "e \<in> ?L"
      then obtain j where j: "j < length (a # insts)" "Confidence ((a # insts) ! j) \<ge> mc"
        "e = (instance_key name (i0 + j), BoundingBox ((a # insts) ! j))" by blast
      show "e \<in> ?R"
      proof (cases j)
        case 0
        with j show ?thesis by simp
      next
        case (Suc j')
        with j have "j' < length insts" "Confidence (insts ! j') \<ge> mc"
          "e = (instance_key name (Suc i0 + j'), BoundingBox (insts ! j'))" by simp_all
        then show ?thesis by blast
      qed
    next
      assume "e \<in> ?R"
      then consider "Confidence a \<ge> mc" "e = (instance_key name i0, BoundingBox a)"
        | j where "j < length insts" "Confidence (insts ! j) \<ge> mc"
            "e = (instance_key name (Suc i0 + j), BoundingBox (insts ! j))"
        by (auto split: if_splits)
      then show "e \<in> ?L"
      proof cases
        case 1
        then have "0 < length (a # insts) \<and> Confidence ((a # insts) ! 0) \<ge> mc
          \<and> e = (instance_key name (i0 + 0), BoundingBox ((a # insts) ! 0))" by simp
        then show ?thesis by blast
      next
        case 2
        then have "Suc j < length (a # insts) \<and> Confidence ((a # insts) ! Suc j) \<ge> mc
          \<and> e = (instance_key name (i0 + Suc j), BoundingBox ((a # insts) ! Suc j))" by simp
        then show ?thesis by blast
      qed
    qed
  qed
  then show ?case
    unfolding step using Cons.IH [of "Suc i0"] by auto
qed

lemma set_all_emitted:
  "set (all_emitted labels mc) =
     {(instance_key (Name l) j, BoundingBox (instances_or_empty l ! j)) | l j.
        l \<in> set labels \<and> j < length (instances_or_empty l)
        \<and> Confidence (instances_or_empty l ! j) \<ge> mc}"
  unfolding all_emitted_def by (auto simp: set_emitted)

lemma distinct_emitted: "distinct (map fst (emitted name mc i0 insts))"
proof -
  let ?is = "map fst (filter (\<lambda>(i, inst). Confidence inst \<ge> mc) (enumerate i0 insts))"
  have eq: "map fst (emitted name mc i0 insts) = map (instance_key name) ?is"
    by (simp add: emitted_def case_prod_unfold comp_def)
  have d: "distinct ?is"
    by (rule distinct_map_filter) simp
  have "inj_on (instance_key name) (set ?is)"
    by (rule inj_onI) (simp add: instance_key_inj)
  with d have "distinct (map (instance_key name) ?is)"
    by (simp only: distinct_map)
  then show ?thesis by (simp only: eq)
qed

lemma distinct_all_emitted:
  "distinct (map Name labels) \<Longrightarrow> distinct (map fst (all_emitted labels mc))"
proof (induction labels)
  case Nil
  then show ?case by (simp add: all_emitted_def)
next
  case (Cons l labels)
  have split: "all_emitted (l # labels) mc =
      emitted (Name l) mc 0 (instances_or_empty l) @ all_emitted labels mc"
    by (simp add: all_emitted_def)
  have "fst ` set (emitted (Name l) mc 0 (instances_or_empty l)) \<inter> fst ` set (all_emitted labels mc) = {}"
  proof (rule ccontr)
    assume "\<not> ?thesis"
    then obtain k where k1: "k \<in> fst ` set (emitted (Name l) mc 0 (instances_or_empty l))"
      and k2: "k \<in> fst ` set (all_emitted labels mc)" by blast
    from k1 obtain j where "k = instance_key (Name l) j"
      by (auto simp: set_emitted)
    moreover from k2 obtain l' j' where "l' \<in> set labels" "k = instance_key (Name l') j'"
      by (auto simp: set_all_emitted)
    ultimately have "Name l = Name l'" "l' \<in> set labels"
      using instance_key_inj by blast+
    then show False using Cons.prems by auto
  qed
  then show ?case
    unfolding split using Cons distinct_emitted [of "Name l" mc 0 "instances_or_empty l"]
    by simp
qed

lemma extract_entry_iff:
  assumes "distinct (map Name labels)"
  shows "map_of (extract_bounding_boxes labels mc) k = Some b \<longleftrightarrow>
     (\<exists>l \<in> set labels. \<exists>j < length (instances_or_empty l).
        k = instance_key (Name l) j \<and> b = BoundingBox (instances_or_empty l ! j)
        \<and> Confidence (instances_or_empty l ! j) \<ge> mc)"
proof -
  have "distinct (map fst (rev (all_emitted labels mc)))"
    using distinct_all_emitted [OF assms, of mc] by (simp add: rev_map [symmetric])
  then have "map_of (rev (all_emitted labels mc)) k = Some b \<longleftrightarrow> (k, b) \<in> set (rev (all_emitted labels mc))"
    by (rule map_of_eq_Some_iff)
  then show ?thesis
    by (simp add: extract_map_of set_all_emitted) blast
qed

text \<open>
  Claim C4, as the specification states it for every list of labels: an instance with a
  confidence at or above the threshold has its entry, keyed by label name and index and
  holding its bounding box. It fails when two labels of the list carry the same name:
  their instances share their keys, and the later box replaces the earlier one.
\<close>

theorem extract_bounding_boxes_counterexample:
  "Confidence \<lparr>Confidence = 90,
               BoundingBox = \<lparr>Left = 0, Top = 0, Width = 1 / 2, Height = 1 / 2\<rparr>\<rparr> \<ge> 75
   \<and> map_of (extract_bounding_boxes
       [\<lparr>Name = ''Car'',
         Instances = Some [\<lparr>Confidence = 90,
                            BoundingBox = \<lparr>Left = 0, Top = 0, Width = 1 / 2, Height = 1 / 2\<rparr>\<rparr>]\<rparr>,
        \<lparr>Name = ''Car'',
         Instances = Some [\<lparr>Confidence = 90,
                            BoundingBox = \<lparr>Left = 1 / 2, Top = 0, Width = 1 / 2, Height = 1 / 2\<rparr>\<rparr>]\<rparr>] 75)
     (instance_key ''Car'' 0)
     \<noteq> Some \<lparr>Left = 0, Top = 0, Width = 1 / 2, Height = 1 / 2\<rparr>"
  by (simp add: extract_bounding_boxes_def instances_or_empty_def)

text \<open>
  Claim C4, amended. For a list of labels with pairwise distinct names and every
  threshold: for every instance (number \<open>j\<close>, counted from 0, of its label) the result
  holds under the key \<^verbatim>\<open>name-j\<close> the bounding box of that instance when its confidence is
  at or above the threshold, and holds nothing under that key when the confidence is
  strictly below; and the result has no other entries. At the threshold 75 an instance
  of confidence 74.999 is left out and one of confidence 75 is kept (the witness below).
\<close>

theorem extract_bounding_boxes_threshold:
  assumes "distinct (map Name labels)"
  shows "(\<forall>l \<in> set labels. \<forall>j < length (instances_or_empty l).
            map_of (extract_bounding_boxes labels min_confidence) (instance_key (Name l) j) =
              (if Confidence (instances_or_empty l ! j) \<ge> min_confidence
               then Some (BoundingBox (instances_or_empty l ! j)) else None))
         \<and> (\<forall>k b. map_of (extract_bounding_boxes labels min_confidence) k = Some b \<longrightarrow>
              (\<exists>l \<in> set labels. \<exists>j < length (instances_or_empty l).
                 k = instance_key (Name l) j \<and> b = BoundingBox (instances_or_empty l ! j)
                 \<and> Confidence (instances_or_empty l ! j) \<ge> min_confidence))"
proof (intro conjI ballI allI impI)
  fix l j
  assume l: "l \<in> set labels" and j: "j < length (instances_or_empty l)"
  let ?r = "map_of (extract_bounding_boxes labels min_confidence) (instance_key (Name l) j)"
  show "?r = (if Confidence (instances_or_empty l ! j) \<ge> min_confidence
              then Some (BoundingBox (instances_or_empty l ! j)) else None)"
  proof (cases "Confidence (instances_or_empty l ! j) \<ge> min_confidence")
    case True
    then have "?r = Some (BoundingBox (instances_or_empty l ! j))"
      using l j extract_entry_iff [OF assms] by blast
    with True show ?thesis by simp
  next
    case False
    have "?r = None"
    proof (rule ccontr)
      assume "?r \<noteq> None"
      then obtain b where "?r = Some b" by auto
      then obtain l' j' where l': "l' \<in> set labels"
        and key: "instance_key (Name l) j = instance_key (Name l') j'"
        and conf: "Confidence (instances_or_empty l' ! j') \<ge> min_confidence"
        using extract_entry_iff [OF assms] by blast
      from key have "Name l = Name l'" and "j = j'"
        using instance_key_inj by blast+
      moreover have "inj_on Name (set labels)"
        using assms by (simp add: distinct_map)
      ultimately have "l = l'" using l l' by (auto dest: inj_onD)
      with conf \<open>j = j'\<close> False show False by simp
    qed
    with False show ?thesis by simp
  qed
next
  fix k b
  assume "map_of (extract_bounding_boxes labels min_confidence) k = Some b"
  then show "\<exists>l \<in> set labels. \<exists>j < length (instances_or_empty l).
                 k = instance_key (Name l) j \<and> b = BoundingBox (instances_or_empty l ! j)
                 \<and> Confidence (instances_or_empty l ! j) \<ge> min_confidence"
    using extract_entry_iff [OF assms] by blast
qed


theorem extract_bounding_boxes_threshold_witness:
  "map_of (extract_bounding_boxes
       [\<lparr>Name = ''Car'',
         Instances = Some [\<lparr>Confidence = 74999 / 1000,
                            BoundingBox = \<lparr>Left = 0, Top = 0, Width = 1 / 2, Height = 1 / 2\<rparr>\<rparr>,
                           \<lparr>Confidence = 75,
                            BoundingBox = \<lparr>Left = 1 / 2, Top = 0, Width = 1 / 2, Height = 1 / 2\<rparr>\<rparr>]\<rparr>] 75)
     ''Car-0'' = None
   \<and> map_of (extract_bounding_boxes
       [\<lparr>Name = ''Car'',
         Instances = Some [\<lparr>Confidence = 74999 / 1000,
                            BoundingBox = \<lparr>Left = 0, Top = 0, Width = 1 / 2, Height = 1 / 2\<rparr>\<rparr>,
                           \<lparr>Confidence = 75,
                            BoundingBox = \<lparr>Left = 1 / 2, Top = 0, Width = 1 / 2, Height = 1 / 2\<rparr>\<rparr>]\<rparr>] 75)
     ''Car-1'' = Some \<lparr>Left = 1 / 2, Top = 0, Width = 1 / 2, Height = 1 / 2\<rparr>"
proof -
  let ?car = "\<lparr>Name = ''Car'',
         Instances = Some [\<lparr>Confidence = 74999 / 1000,
                            BoundingBox = \<lparr>Left = 0, Top = 0, Width = 1 / 2, Height = 1 / 2\<rparr>\<rparr>,
                           \<lparr>Confidence = 75,
                            BoundingBox = \<lparr>Left = 1 / 2, Top = 0, Width = 1 / 2, Height = 1 / 2\<rparr>\<rparr>]\<rparr>"
  have d: "distinct (map Name [?car])" by simp
  note t = extract_bounding_boxes_threshold [OF d, of 75, THEN conjunct1, rule_format, of ?car]
  have k0: "instance_key ''Car'' 0 = ''Car-0''" and k1: "instance_key ''Car'' (Suc 0) = ''Car-1''"
    by (simp_all add: instance_key_def str_nat_small digit_char_def)
  from t [of 0] t [of 1] show ?thesis
    by (simp add: instances_or_empty_def k0 k1)
qed

section \<open>Properties of the rounding to a double\<close>

lemma floor_log2_lower:
  assumes "0 < q"
  shows "2 powi (floor_log2 q) \<le> q"
proof (cases "1 \<le> q")
  case True
  let ?x = "\<lfloor>q\<rfloor>"
  have x: "0 < ?x" using True by simp
  have b: "1 \<le> bitlen ?x"
    using bitlen_eq_zero_iff [of ?x] bitlen_nonneg [of ?x] x by linarith
  have "2 ^ nat (bitlen ?x - 1) \<le> ?x" using bitlen_bounds [OF x] by simp
  then have "(of_int (2 ^ nat (bitlen ?x - 1)) :: rat) \<le> of_int ?x"
    by (simp only: of_int_le_iff)
  also have "of_int ?x \<le> q" by simp
  finally have "(2::rat) ^ nat (bitlen ?x - 1) \<le> q" by simp
  have "(2::rat) powi (bitlen ?x - 1) = 2 ^ nat (bitlen ?x - 1)"
    using b by (simp add: power_int_def)
  then show ?thesis using True \<open>(2::rat) ^ nat (bitlen ?x - 1) \<le> q\<close>
    by (simp add: floor_log2_def)
next
  case False
  let ?x = "\<lceil>1 / q\<rceil> - 1"
  let ?c = "bitlen ?x"
  have "1 < 1 / q" using False assms by simp
  then have x: "0 < ?x" by (simp add: less_ceiling_iff)
  have c: "0 \<le> ?c" by (rule bitlen_nonneg)
  have "?x < 2 ^ nat ?c" using bitlen_bounds [OF x] by simp
  then have "\<lceil>1 / q\<rceil> \<le> 2 ^ nat ?c" by simp
  then have "(of_int \<lceil>1 / q\<rceil> :: rat) \<le> of_int (2 ^ nat ?c)"
    by (simp only: of_int_le_iff)
  with le_of_int_ceiling [of "1 / q"] have "1 / q \<le> of_int (2 ^ nat ?c)"
    by (rule order_trans)
  then have "1 / q \<le> 2 ^ nat ?c" by simp
  then have "1 \<le> q * 2 ^ nat ?c"
    using assms by (simp add: field_simps)
  then have "1 / 2 ^ nat ?c \<le> q"
    by (simp add: field_simps)
  moreover have "(2::rat) powi (- ?c) = 1 / 2 ^ nat ?c"
    using c by (simp add: power_int_def field_simps)
  ultimately show ?thesis using False by (simp add: floor_log2_def)
qed

lemma round_half_even_error: "\<bar>of_int (round_half_even q) - q\<bar> \<le> 1 / 2"
proof -
  have "of_int \<lfloor>q\<rfloor> \<le> q" "q < of_int \<lfloor>q\<rfloor> + 1" by linarith+
  then show ?thesis
    by (auto simp: round_half_even_def Let_def abs_le_iff)
qed

lemma round_double_error: "\<bar>round_double q - q\<bar> \<le> 2 powi ulp_exponent q / 2"
proof (cases "q = 0")
  case True
  then show ?thesis by (simp add: round_double_def)
next
  case False
  let ?u = "(2::rat) powi ulp_exponent q"
  let ?m = "round_half_even (\<bar>q\<bar> / ?u)"
  have u: "0 < ?u" by simp
  have "round_double q = sgn q * (of_int ?m * ?u)"
    using False by (simp add: round_double_def)
  then have "round_double q - q = sgn q * (of_int ?m * ?u - \<bar>q\<bar>)"
    by (simp add: right_diff_distrib sgn_mult_abs)
  moreover have "of_int ?m * ?u - \<bar>q\<bar> = (of_int ?m - \<bar>q\<bar> / ?u) * ?u"
    by (simp add: left_diff_distrib)
  ultimately have "\<bar>round_double q - q\<bar> = \<bar>of_int ?m - \<bar>q\<bar> / ?u\<bar> * ?u"
    using False by (simp add: abs_mult abs_sgn_eq)
  also have "\<dots> \<le> (1 / 2) * ?u"
    using round_half_even_error [of "\<bar>q\<bar> / ?u"] u by (intro mult_right_mono) simp_all
  finally show ?thesis by simp
qed

lemma round_half_even_of_int: "round_half_even (of_int n) = n"
  by (simp add: round_half_even_def)

lemma round_half_even_nonneg: "0 \<le> q \<Longrightarrow> 0 \<le> round_half_even q"
  by (auto simp: round_half_even_def Let_def)

lemma round_half_even_le: "q \<le> of_int n \<Longrightarrow> round_half_even q \<le> n"
proof -
  assume q: "q \<le> of_int n"
  show ?thesis
  proof (cases "q = of_int n")
    case True
    then show ?thesis by (simp add: round_half_even_of_int)
  next
    case False
    with q have "q < of_int n" by simp
    then have "\<lfloor>q\<rfloor> < n" by (simp add: floor_less_iff)
    then have "\<lfloor>q\<rfloor> + 1 \<le> n" by simp
    moreover have "round_half_even q \<le> \<lfloor>q\<rfloor> + 1"
      by (auto simp: round_half_even_def Let_def)
    ultimately show ?thesis by linarith
  qed
qed

lemma round_double_nonneg: "0 \<le> q \<Longrightarrow> 0 \<le> round_double q"
  by (auto simp: round_double_def intro!: mult_nonneg_nonneg round_half_even_nonneg divide_nonneg_nonneg)

lemma floor_log2_upper:
  assumes "0 < q"
  shows "q < 2 powi (floor_log2 q + 1)"
proof (cases "1 \<le> q")
  case True
  let ?x = "\<lfloor>q\<rfloor>"
  have x: "0 < ?x" using True by simp
  have b: "0 \<le> bitlen ?x" by (rule bitlen_nonneg)
  have "?x < 2 ^ nat (bitlen ?x)" using bitlen_bounds [OF x] by simp
  then have "?x + 1 \<le> 2 ^ nat (bitlen ?x)" by simp
  then have "(of_int (?x + 1) :: rat) \<le> of_int (2 ^ nat (bitlen ?x))"
    by (simp only: of_int_le_iff)
  moreover have "q < of_int (?x + 1)" by linarith
  ultimately have "q < 2 ^ nat (bitlen ?x)" by simp
  moreover have "(2::rat) powi (bitlen ?x) = 2 ^ nat (bitlen ?x)"
    using b by (simp add: power_int_def)
  ultimately show ?thesis using True by (simp add: floor_log2_def)
next
  case False
  let ?x = "\<lceil>1 / q\<rceil> - 1"
  let ?c = "bitlen ?x"
  have "1 < 1 / q" using False assms by simp
  then have x: "0 < ?x" by (simp add: less_ceiling_iff)
  then have c: "1 \<le> ?c" using bitlen_eq_zero_iff [of ?x] bitlen_nonneg [of ?x] by linarith
  have "2 ^ nat (?c - 1) \<le> ?x" using bitlen_bounds [OF x] by simp
  then have "(of_int (2 ^ nat (?c - 1)) :: rat) \<le> of_int ?x" by (simp only: of_int_le_iff)
  moreover have "(of_int ?x :: rat) < 1 / q" by linarith
  ultimately have "(2::rat) ^ nat (?c - 1) < 1 / q" by simp
  then have "q * 2 ^ nat (?c - 1) < 1"
    using assms by (simp add: field_simps)
  then have "q < 1 / 2 ^ nat (?c - 1)"
    by (simp add: field_simps)
  moreover have "(2::rat) powi (1 - ?c) = 1 / 2 ^ nat (?c - 1)"
    using c by (simp add: power_int_def field_simps)
  ultimately show ?thesis using False by (simp add: floor_log2_def)
qed

lemma floor_log2_le_52:
  assumes "0 < q" and "q < 2 ^ 53"
  shows "floor_log2 q \<le> 52"
proof (cases "1 \<le> q")
  case True
  have "\<lfloor>q\<rfloor> < 2 ^ 53" using assms(2) by (simp add: floor_less_iff)
  then have "bitlen \<lfloor>q\<rfloor> \<le> 53" by (simp add: bitlen_le_iff_power)
  then show ?thesis using True by (simp add: floor_log2_def)
next
  case False
  then show ?thesis using bitlen_nonneg [of "\<lceil>1 / q\<rceil> - 1"] by (simp add: floor_log2_def)
qed


lemma ulp_exponent_nonpos:
  assumes "0 < q" and "q < 2 ^ 53"
  shows "ulp_exponent q \<le> 0"
  using floor_log2_le_52 [OF assms] assms(1) by (simp add: ulp_exponent_def)

lemma two_powi_le_one: "e \<le> 0 \<Longrightarrow> (2::rat) powi e \<le> 1"
proof -
  assume "e \<le> 0"
  then have "(2::rat) powi e \<le> 2 powi 0"
    by (intro power_int_increasing) simp_all
  then show ?thesis by simp
qed

lemma scaled_below_2_53:
  assumes "0 < q"
  shows "q / 2 powi ulp_exponent q < 2 ^ 53"
proof -
  let ?l = "floor_log2 q"
  have "(2::rat) powi (?l - 52) \<le> 2 powi ulp_exponent q"
    using assms by (intro power_int_increasing) (simp_all add: ulp_exponent_def)
  then have "q / 2 powi ulp_exponent q \<le> q / 2 powi (?l - 52)"
    using assms by (intro divide_left_mono) (simp_all add: less_imp_le)
  also have "\<dots> < 2 powi (?l + 1) / 2 powi (?l - 52)"
    using floor_log2_upper [OF assms] by (intro divide_strict_right_mono) simp_all
  also have "\<dots> = 2 powi ((?l + 1) - (?l - 52))"
    by (subst power_int_diff) simp_all
  also have "\<dots> = 2 ^ 53" by simp
  finally show ?thesis .
qed

lemma round_double_bound:
  assumes "0 \<le> q" and "q < 2 ^ 53"
  shows "round_double q \<le> 2 ^ 53"
proof (cases "q = 0")
  case True
  then show ?thesis by (simp add: round_double_def)
next
  case False
  with assms have q: "0 < q" by simp
  let ?e = "ulp_exponent q"
  let ?m = "round_half_even (q / 2 powi ?e)"
  have "q / 2 powi ?e \<le> of_int (2 ^ 53)"
    using scaled_below_2_53 [OF q] by simp
  then have "?m \<le> 2 ^ 53" by (rule round_half_even_le)
  then have m: "(of_int ?m :: rat) \<le> 2 ^ 53"
    by (metis of_int_le_iff of_int_numeral of_int_power)
  have m0: "(0::rat) \<le> of_int ?m"
    using q by (simp add: round_half_even_nonneg)
  have e: "(2::rat) powi ?e \<le> 1"
    using ulp_exponent_nonpos [OF q assms(2)] by (rule two_powi_le_one)
  have "of_int ?m * 2 powi ?e \<le> (2 ^ 53 :: rat) * 1"
    using m e m0 by (intro mult_mono) simp_all
  then show ?thesis using q by (simp add: round_double_def)
qed

lemma round_double_of_int:
  assumes "0 \<le> n" and "n < 2 ^ 53"
  shows "round_double (of_int n) = of_int n"
proof (cases "n = 0")
  case True
  then show ?thesis by (simp add: round_double_def)
next
  case False
  with assms have n: "0 < n" by simp
  have b1: "1 \<le> bitlen n" using bitlen_eq_zero_iff [of n] bitlen_nonneg [of n] n by linarith
  have b2: "bitlen n \<le> 53" using assms(2) by (simp add: bitlen_le_iff_power)
  define k where "k = nat (53 - bitlen n)"
  have e: "ulp_exponent (of_int n) = - int k"
    using n b1 b2 by (simp add: ulp_exponent_def floor_log2_def k_def)
  have p: "(2::rat) powi (- int k) = 1 / 2 ^ k"
    by (simp add: power_int_minus field_simps)
  have "\<bar>of_int n :: rat\<bar> / 2 powi (- int k) = of_int (n * 2 ^ k)"
    using n by (simp add: p)
  then have "round_half_even (\<bar>of_int n :: rat\<bar> / 2 powi (- int k)) = n * 2 ^ k"
    by (simp only: round_half_even_of_int)
  then show ?thesis
    using n by (simp add: round_double_def e p)
qed

lemma no_overflow_below_2_53:
  assumes "0 \<le> q" and "q < 2 ^ 53"
  shows "\<not> overflows q"
proof -
  have "\<bar>round_double q\<bar> \<le> 2 ^ 53"
    using round_double_bound [OF assms] round_double_nonneg [OF assms(1)] by simp
  moreover have "(2 ^ 53 :: rat) \<le> max_double"
    by (simp add: max_double_def)
  ultimately show ?thesis by (simp add: overflows_def)
qed

lemma float_of_int_exact:
  assumes "0 \<le> n" and "n < 2 ^ 53"
  shows "float_of_int n = Inr (of_int n)"
proof -
  have "\<not> overflows (of_int n)"
    using assms by (intro no_overflow_below_2_53) simp_all
  then show ?thesis
    using round_double_of_int [OF assms] by (simp add: float_of_int_def)
qed

lemma int_float_times_floor:
  assumes "0 \<le> x" and "x \<le> 1" and "0 \<le> n" and "n < 2 ^ 53"
  shows "int_float_times x n = Inr \<lfloor>round_double (x * of_int n)\<rfloor>"
proof -
  have p0: "0 \<le> x * of_int n" using assms(1,3) by simp
  have "x * of_int n \<le> 1 * of_int n"
    using assms(2,3) by (intro mult_right_mono) simp_all
  also have "\<dots> < 2 ^ 53" using assms(4)
    by (metis mult_1 of_int_less_iff of_int_numeral of_int_power)
  finally have p1: "x * of_int n < 2 ^ 53" .
  have "\<not> overflows (x * of_int n)" using p0 p1 by (rule no_overflow_below_2_53)
  moreover have "0 \<le> round_double (x * of_int n)" using p0 by (rule round_double_nonneg)
  ultimately show ?thesis
    using float_of_int_exact [OF assms(3,4)]
    by (simp add: int_float_times_def float_mul_def int_of_float_def)
qed

lemma nearest_doubles:
  "round_double (1 / 10) = 3602879701896397 / 36028797018963968"
  "round_double (2 / 10) = 3602879701896397 / 18014398509481984"
  "round_double (5 / 10) = 1 / 2"
  by code_simp+

lemma float_product_not_exact:
  "\<lfloor>round_double (round_double (7 / 10) * 10)\<rfloor> = 7"
  "\<lfloor>round_double (7 / 10) * 10\<rfloor> = 6"
  by code_simp+

text \<open>
  Claim C3. For a bounding box with fractional fields (between 0 and 1) and an image of
  width and height from 0 to below \<open>2\<^sup>5\<^sup>3\<close>, the rectangle that
  \<^verbatim>\<open>make_cropped_images\<close> computes is \<open>left = floor (Left * width)\<close>,
  \<open>top = floor (Top * height)\<close>, \<open>right = left + floor (Width * width)\<close> and
  \<open>bottom = top + floor (Height * height)\<close>, the products being those of Python floats,
  and its computation raises no error. On an image of 1000 by 500 the box
  (0.1, 0.2, 0.5, 0.5) gives the rectangle from (100, 100) to (600, 350) (the witness
  below).
\<close>

theorem pixel_rect_floor:
  assumes "fractional bbox"
    and "0 \<le> width" "width < 2 ^ 53" "0 \<le> height" "height < 2 ^ 53"
  shows "pixel_rect width height bbox = Inr (floor_rect width height bbox)"
  using assms
  by (simp add: pixel_rect_def int_float_times_floor fractional_def floor_rect_def Let_def)

theorem pixel_rect_floor_witness:
  "pixel_rect 1000 500
     \<lparr>Left = 3602879701896397 / 36028797018963968,
      Top = 3602879701896397 / 18014398509481984,
      Width = 1 / 2, Height = 1 / 2\<rparr>
   = Inr (100, 100, 600, 350)"
proof -
  let ?b = "\<lparr>Left = 3602879701896397 / 36028797018963968,
             Top = 3602879701896397 / 18014398509481984,
             Width = 1 / 2, Height = 1 / 2 :: rat\<rparr>"
  have r: "pixel_rect 1000 500 ?b = Inr (floor_rect 1000 500 ?b)"
    by (rule pixel_rect_floor) (simp_all add: fractional_def)
  have v: "floor_rect 1000 500 ?b = (100, 100, 600, 350)"
    by code_simp
  from r show ?thesis by (simp only: v)
qed

end
